theory Spec2Isabelle
  imports Complex_Main "HOL-Library.Product_Lexorder"
begin

section \<open>Transaction scheduling: the data model\<close>

text \<open>
  A shallow embedding of the scheduling core of the repository: the variable names of
  the discrete encoding (\<^verbatim>\<open>variable_representation.py\<close>), the timed schedule
  (\<^verbatim>\<open>solution.py\<close>), the list-scheduling simulator (\<^verbatim>\<open>utils.py\<close>,
  \<^verbatim>\<open>task.py\<close>), the decoder (\<^verbatim>\<open>transformation.py\<close>) and the
  discretisation of the encoder (\<^verbatim>\<open>qubo.py\<close>).

  Python integers are \<open>int\<close>. Durations and times are numpy floats in the source; they
  are \<open>real\<close> here, so every sum, quotient and comparison is exact. Every exception the
  source can raise is a value of \<open>error\<close>, and a function that can raise returns
  \<open>error + 'a\<close> with \<open>Inl\<close> for the exception.
\<close>

datatype error = IndexError | ValueError | KeyError | AttributeError

subsection \<open>Python and numpy primitives the source calls\<close>

text \<open>
  \<^verbatim>\<open>a[i]\<close> on a Python list or a numpy array: a negative index counts from the end,
  an index outside \<open>-n \<le> i < n\<close> raises.
\<close>

definition py_index :: "'a list \<Rightarrow> int \<Rightarrow> error + 'a" where
  "py_index xs i =
     (if 0 \<le> i \<and> i < int (length xs) then Inr (xs ! nat i)
      else if - int (length xs) \<le> i \<and> i < 0 then Inr (xs ! nat (int (length xs) + i))
      else Inl IndexError)"

text \<open>\<^verbatim>\<open>s.split(sep)\<close> for a one-character separator: \<open>k\<close> separators give \<open>k + 1\<close> fields.\<close>

fun py_split :: "char \<Rightarrow> string \<Rightarrow> string list" where
  "py_split sep [] = [[]]"
| "py_split sep (c # cs) =
     (if c = sep then [] # py_split sep cs
      else (case py_split sep cs of
              [] \<Rightarrow> [[c]]
            | f # fs \<Rightarrow> (c # f) # fs))"

text \<open>
  \<^verbatim>\<open>int(s)\<close> on an ASCII string, base 10: surrounding whitespace is stripped, one sign
  is allowed, then decimal digits, where a single underscore may stand between two digits.
  \<open>None\<close> is the \<^verbatim>\<open>ValueError\<close> of the builtin.
\<close>

definition is_space :: "char \<Rightarrow> bool" where
  "is_space c = (of_char c \<in> set [9, 10, 11, 12, 13, 28, 29, 30, 31, 32 :: nat])"

definition py_strip :: "string \<Rightarrow> string" where
  "py_strip s = rev (dropWhile is_space (rev (dropWhile is_space s)))"

definition digit_val :: "char \<Rightarrow> nat option" where
  "digit_val c =
     (let n = (of_char c :: nat) in if 48 \<le> n \<and> n \<le> 57 then Some (n - 48) else None)"

fun digits_from :: "nat \<Rightarrow> string \<Rightarrow> nat option" where
  "digits_from acc [] = Some acc"
| "digits_from acc [c] =
     (case digit_val c of None \<Rightarrow> None | Some v \<Rightarrow> Some (10 * acc + v))"
| "digits_from acc (c # d # ds) =
     (if c = CHR ''_'' then
        (case digit_val d of None \<Rightarrow> None | Some v \<Rightarrow> digits_from (10 * acc + v) ds)
      else
        (case digit_val c of None \<Rightarrow> None | Some v \<Rightarrow> digits_from (10 * acc + v) (d # ds)))"

definition py_int :: "string \<Rightarrow> int option" where
  "py_int s =
     (case py_strip s of
        [] \<Rightarrow> None
      | c # cs \<Rightarrow>
          (let sgn = (if c = CHR ''-'' then - 1 else 1 :: int);
               body = (if c = CHR ''-'' \<or> c = CHR ''+'' then cs else c # cs)
           in case body of
                [] \<Rightarrow> None
              | d # ds \<Rightarrow>
                  (case digit_val d of
                     None \<Rightarrow> None
                   | Some v \<Rightarrow> map_option (\<lambda>n. sgn * int n) (digits_from v ds))))"

subsection \<open>Variable names: \<^verbatim>\<open>VariableRepresentation\<close>\<close>

text \<open>
  The third field is \<^verbatim>\<open>start_time\<close> in the source; the name is suffixed here because
  the timed transactions below have a field \<^verbatim>\<open>start_time\<close> of their own.
\<close>

record VariableRepresentation =
  transaction_id :: int
  machine_id :: int
  start_time_var :: int

text \<open>
  \<^verbatim>\<open>from_string\<close> splits at \<open>-\<close> and reads the fields 0, 1 and 2 in this order. A
  missing field is the \<^verbatim>\<open>IndexError\<close> of \<^verbatim>\<open>splits[k]\<close>, a field that is no
  integer the \<^verbatim>\<open>ValueError\<close> of \<^verbatim>\<open>int\<close>. Fields after the third are never read.
\<close>

definition int_field :: "string list \<Rightarrow> int \<Rightarrow> error + int" where
  "int_field splits k =
     (case py_index splits k of
        Inl e \<Rightarrow> Inl e
      | Inr f \<Rightarrow> (case py_int f of None \<Rightarrow> Inl ValueError | Some v \<Rightarrow> Inr v))"

definition from_string :: "string \<Rightarrow> error + VariableRepresentation" where
  "from_string input =
     (let splits = py_split (CHR ''-'') input in
      case int_field splits 0 of
        Inl e \<Rightarrow> Inl e
      | Inr t \<Rightarrow>
          (case int_field splits 1 of
             Inl e \<Rightarrow> Inl e
           | Inr m \<Rightarrow>
               (case int_field splits 2 of
                  Inl e \<Rightarrow> Inl e
                | Inr s \<Rightarrow>
                    Inr \<lparr>transaction_id = t - 1, machine_id = m - 1, start_time_var = s\<rparr>)))"

subsection \<open>Schedules: \<^verbatim>\<open>solution.py\<close>\<close>

text \<open>
  The field \<^verbatim>\<open>id\<close> of a timed transaction is \<open>id_tx\<close> here (\<open>id\<close> is the identity
  function of HOL).
\<close>

record TransactionSolution =
  id_tx :: int
  start_time :: real
  end_time :: real
  duration :: real

record MachineSolution =
  transactions :: "TransactionSolution list"

definition processing_time :: "MachineSolution \<Rightarrow> real" where
  "processing_time m =
     (if length (transactions m) = 0 then 0 else end_time (last (transactions m)))"

text \<open>
  \<open>length_cache\<close> is the attribute \<^verbatim>\<open>_length\<close> that the first read of
  \<^verbatim>\<open>Solution.length\<close> sets; a schedule the constructor built has none.
\<close>

record Solution =
  machines :: "MachineSolution list"
  length_cache :: "real option"

definition new_solution :: "MachineSolution list \<Rightarrow> Solution" where
  "new_solution ms = \<lparr>machines = ms, length_cache = None\<rparr>"

text \<open>
  \<^verbatim>\<open>min(machines, key=lambda x: x.processing_time)\<close>: the first machine whose key is
  smallest, given by its position; \<^verbatim>\<open>ValueError\<close> on no machine at all.
\<close>

fun min_from :: "nat \<Rightarrow> real \<Rightarrow> nat \<Rightarrow> real list \<Rightarrow> nat" where
  "min_from best key i [] = best"
| "min_from best key i (k # ks) =
     (if k < key then min_from i k (Suc i) ks else min_from best key (Suc i) ks)"

definition min_machine :: "MachineSolution list \<Rightarrow> error + nat" where
  "min_machine ms =
     (case map processing_time ms of
        [] \<Rightarrow> Inl ValueError
      | k # ks \<Rightarrow> Inr (min_from 0 k 1 ks))"

text \<open>
  \<^verbatim>\<open>machines.index(machine)\<close>: the first position holding a machine equal to the given
  one. \<^verbatim>\<open>MachineSolution\<close> is a dataclass, so equality compares the transactions.
\<close>

fun py_list_index :: "'a list \<Rightarrow> 'a \<Rightarrow> error + nat" where
  "py_list_index [] x = Inl ValueError"
| "py_list_index (y # ys) x =
     (if y = x then Inr 0
      else (case py_list_index ys x of Inl e \<Rightarrow> Inl e | Inr i \<Rightarrow> Inr (Suc i)))"

text \<open>
  \<^verbatim>\<open>Solution.length\<close>: the cached value when there is one, else the maximum of all end
  times, which is then cached. \<^verbatim>\<open>max\<close> of no value at all raises.
\<close>

definition length_sol :: "Solution \<Rightarrow> error + (real \<times> Solution)" where
  "length_sol s =
     (case length_cache s of
        Some l \<Rightarrow> Inr (l, s)
      | None \<Rightarrow>
          (case concat (map (\<lambda>m. map end_time (transactions m)) (machines s)) of
             [] \<Rightarrow> Inl ValueError
           | l # ls \<Rightarrow> (let r = fold max ls l in Inr (r, s\<lparr>length_cache := Some r\<rparr>))))"

subsection \<open>The simulator: \<^verbatim>\<open>utils.py\<close> and \<^verbatim>\<open>task.py\<close>\<close>

record TransactionScheduleTask =
  id_task :: int
  num_machines :: int
  lengths :: "real list"
  conflicts :: "nat list list"
  solution :: "int list"

definition num_transactions :: "TransactionScheduleTask \<Rightarrow> nat" where
  "num_transactions task = length (lengths task)"

text \<open>\<^verbatim>\<open>conflicts[i][j]\<close>, each index read as numpy reads it.\<close>

definition conflict_at :: "nat list list \<Rightarrow> int \<Rightarrow> int \<Rightarrow> error + nat" where
  "conflict_at cs i j = (case py_index cs i of Inl e \<Rightarrow> Inl e | Inr row \<Rightarrow> py_index row j)"

text \<open>
  The inner loop of \<^verbatim>\<open>build_transaction_solution\<close> over the transactions of one other
  machine. The conflict entry is read first, for every transaction scanned.
\<close>

fun scan_transactions ::
  "nat list list \<Rightarrow> int \<Rightarrow> real \<Rightarrow> TransactionSolution list \<Rightarrow> real \<Rightarrow> error + real" where
  "scan_transactions cs tid d [] earliest_possible = Inr earliest_possible"
| "scan_transactions cs tid d (omt # omts) earliest_possible =
     (case conflict_at cs (id_tx omt) tid of
        Inl e \<Rightarrow> Inl e
      | Inr c \<Rightarrow>
          scan_transactions cs tid d omts
            (if c > 0 \<and> start_time omt \<le> earliest_possible + d
                \<and> end_time omt \<ge> earliest_possible
             then max (end_time omt) earliest_possible
             else earliest_possible))"

text \<open>
  The outer loop over all machines, in list order. The machine that receives the
  transaction is skipped: the source compares object identities, and the machines of a
  list are distinct objects, so the comparison is one of positions.
\<close>

fun scan_machines ::
  "nat list list \<Rightarrow> int \<Rightarrow> real \<Rightarrow> nat \<Rightarrow> nat \<Rightarrow> MachineSolution list \<Rightarrow> real \<Rightarrow> error + real"
  where
  "scan_machines cs tid d m i [] earliest_possible = Inr earliest_possible"
| "scan_machines cs tid d m i (other_machine # oms) earliest_possible =
     (if i \<noteq> m then
        (case scan_transactions cs tid d (transactions other_machine) earliest_possible of
           Inl e \<Rightarrow> Inl e
         | Inr ep \<Rightarrow> scan_machines cs tid d m (Suc i) oms ep)
      else scan_machines cs tid d m (Suc i) oms earliest_possible)"

text \<open>
  \<^verbatim>\<open>build_transaction_solution\<close>: \<open>m\<close> is the position of \<^verbatim>\<open>machine\<close> in
  \<^verbatim>\<open>machines\<close>; both callers pass a machine of the list. The list with the new
  transaction appended to machine \<open>m\<close> is returned.
\<close>

definition build_transaction_solution ::
  "nat \<Rightarrow> MachineSolution list \<Rightarrow> int \<Rightarrow> real \<Rightarrow> nat list list \<Rightarrow> error + MachineSolution list"
  where
  "build_transaction_solution m ms tid d cs =
     (let machine = ms ! m;
          earliest_possible =
            (if length (transactions machine) > 0 then end_time (last (transactions machine))
             else 0)
      in case scan_machines cs tid d m 0 ms earliest_possible of
           Inl e \<Rightarrow> Inl e
         | Inr ep \<Rightarrow>
             Inr (ms[m := machine\<lparr>transactions := transactions machine @
                    [\<lparr>id_tx = tid, start_time = ep, end_time = ep + d, duration = d\<rparr>]\<rparr>]))"

fun place_all ::
  "TransactionScheduleTask \<Rightarrow> int list \<Rightarrow> MachineSolution list \<Rightarrow> error + MachineSolution list"
  where
  "place_all task [] ms = Inr ms"
| "place_all task (tid # order) ms =
     (case min_machine ms of
        Inl e \<Rightarrow> Inl e
      | Inr m \<Rightarrow>
          (case py_index (lengths task) tid of
             Inl e \<Rightarrow> Inl e
           | Inr d \<Rightarrow>
               (case build_transaction_solution m ms tid d (conflicts task) of
                  Inl e \<Rightarrow> Inl e
                | Inr ms' \<Rightarrow> place_all task order ms')))"

definition empty_machines :: "int \<Rightarrow> MachineSolution list" where
  "empty_machines n = replicate (nat n) \<lparr>transactions = []\<rparr>"

definition solution_order_to_solution ::
  "TransactionScheduleTask \<Rightarrow> int list \<Rightarrow> error + Solution" where
  "solution_order_to_solution task solution_order =
     (case place_all task solution_order (empty_machines (num_machines task)) of
        Inl e \<Rightarrow> Inl e
      | Inr ms \<Rightarrow> Inr (new_solution ms))"

text \<open>
  \<^verbatim>\<open>solution_to_solution_order\<close>: \<open>orig\<close> are the machines of the schedule, \<open>ms\<close> the
  fresh machines of the replay, \<open>tracker\<close> the dictionary \<^verbatim>\<open>index_tracker\<close>,
  \<open>mid\<close> the \<^verbatim>\<open>machine_id\<close> of the loop body.
\<close>

fun replay ::
  "nat \<Rightarrow> MachineSolution list \<Rightarrow> MachineSolution list \<Rightarrow> (nat \<rightharpoonup> nat) \<Rightarrow> int list
     \<Rightarrow> error + int list" where
  "replay 0 orig ms tracker solution_order = Inr solution_order"
| "replay (Suc k) orig ms tracker solution_order =
     (case min_machine ms of
        Inl e \<Rightarrow> Inl e
      | Inr m \<Rightarrow>
          (case py_list_index ms (ms ! m) of
             Inl e \<Rightarrow> Inl e
           | Inr mid \<Rightarrow>
               (case tracker mid of
                  None \<Rightarrow> Inl KeyError
                | Some transaction_index \<Rightarrow>
                    (case py_index orig (int mid) of
                       Inl e \<Rightarrow> Inl e
                     | Inr om \<Rightarrow>
                         (case py_index (transactions om) (int transaction_index) of
                            Inl e \<Rightarrow> Inl e
                          | Inr transaction \<Rightarrow>
                              replay k orig
                                (ms[m := (ms ! m)\<lparr>transactions :=
                                   transactions (ms ! m) @ [transaction]\<rparr>])
                                (tracker(mid \<mapsto> transaction_index + 1))
                                (solution_order @ [id_tx transaction]))))))"

definition solution_to_solution_order :: "Solution \<Rightarrow> error + int list" where
  "solution_to_solution_order s =
     replay (sum_list (map (\<lambda>m. length (transactions m)) (machines s)))
       (machines s)
       (empty_machines (int (length (machines s))))
       (\<lambda>m. if m < length (machines s) then Some 0 else None)
       []"

subsection \<open>The decoder: \<^verbatim>\<open>transformation.py\<close>\<close>

text \<open>The list comprehension over \<^verbatim>\<open>vars\<close> stops at the first name that fails to parse.\<close>

fun parse_all :: "string list \<Rightarrow> error + VariableRepresentation list" where
  "parse_all [] = Inr []"
| "parse_all (v # vs) =
     (case from_string v of
        Inl e \<Rightarrow> Inl e
      | Inr r \<Rightarrow> (case parse_all vs of Inl e \<Rightarrow> Inl e | Inr rs \<Rightarrow> Inr (r # rs)))"

text \<open>
  \<^verbatim>\<open>machine_var_map\<close> is a \<^verbatim>\<open>defaultdict(list)\<close>: a total map whose default is the
  empty list. Each representation is appended to the list of its machine, in input order.
\<close>

definition machine_var_map :: "VariableRepresentation list \<Rightarrow> int \<Rightarrow> VariableRepresentation list"
  where
  "machine_var_map reps =
     foldl (\<lambda>mp rep. mp(machine_id rep := mp (machine_id rep) @ [rep])) (\<lambda>k. []) reps"

text \<open>
  The dictionary comprehension of the source builds this sorted copy of every group and
  drops it: the result is bound to no name and \<^verbatim>\<open>sorted\<close> leaves its argument as it
  is. The loop below therefore reads \<open>machine_var_map\<close>, never \<open>sorted_groups\<close>.
\<close>

definition sorted_groups ::
  "(int \<Rightarrow> VariableRepresentation list) \<Rightarrow> int \<Rightarrow> VariableRepresentation list" where
  "sorted_groups mp k = sort_key start_time_var (mp k)"

text \<open>\<^verbatim>\<open>xs.pop()\<close> removes and returns the last element.\<close>

definition py_pop :: "'a list \<Rightarrow> error + ('a \<times> 'a list)" where
  "py_pop xs = (if xs = [] then Inl IndexError else Inr (last xs, butlast xs))"

fun decode_loop ::
  "nat \<Rightarrow> TransactionScheduleTask \<Rightarrow> MachineSolution list
     \<Rightarrow> (int \<Rightarrow> VariableRepresentation list) \<Rightarrow> error + MachineSolution list" where
  "decode_loop 0 task ms mp = Inr ms"
| "decode_loop (Suc k) task ms mp =
     (case min_machine ms of
        Inl e \<Rightarrow> Inl e
      | Inr m \<Rightarrow>
          (case py_list_index ms (ms ! m) of
             Inl e \<Rightarrow> Inl e
           | Inr mid \<Rightarrow>
               (case py_pop (mp (int mid)) of
                  Inl e \<Rightarrow> Inl e
                | Inr (transaction_var, rest) \<Rightarrow>
                    (case py_index (lengths task) (transaction_id transaction_var) of
                       Inl e \<Rightarrow> Inl e
                     | Inr d \<Rightarrow>
                         (case build_transaction_solution m ms
                                 (transaction_id transaction_var) d (conflicts task) of
                            Inl e \<Rightarrow> Inl e
                          | Inr ms' \<Rightarrow> decode_loop k task ms' (mp(int mid := rest)))))))"

definition binary_variables_to_solution ::
  "string list \<Rightarrow> TransactionScheduleTask \<Rightarrow> error + Solution" where
  "binary_variables_to_solution vars task =
     (case parse_all vars of
        Inl e \<Rightarrow> Inl e
      | Inr representations \<Rightarrow>
          (case decode_loop (num_transactions task) task (empty_machines (num_machines task))
                  (machine_var_map representations) of
             Inl e \<Rightarrow> Inl e
           | Inr ms \<Rightarrow> Inr (new_solution ms)))"

subsection \<open>The encoder: \<^verbatim>\<open>qubo.py\<close>\<close>

text \<open>
  \<^verbatim>\<open>estimate_execution_time\<close>. The quotient is taken first; \<^verbatim>\<open>lengths.max()\<close> raises on
  no length at all. numpy divides by zero without raising (the quotient is \<^verbatim>\<open>inf\<close> or
  \<^verbatim>\<open>nan\<close>), which a real number cannot express: where a divisor is zero the quotient
  below is the 0 of HOL, and the theorems that read a quotient assume its divisor is not
  zero.
\<close>

definition estimate_execution_time :: "int \<Rightarrow> real list \<Rightarrow> error + real" where
  "estimate_execution_time nm ls =
     (let medium_execution_time = sum_list ls / of_int nm in
      case ls of
        [] \<Rightarrow> Inl ValueError
      | l # rest \<Rightarrow> Inr (max medium_execution_time (fold max rest l)))"

text \<open>
  Step 0 of \<^verbatim>\<open>build_discrete_qubo\<close>: the time step, \<^verbatim>\<open>discrete_lengths\<close>,
  \<^verbatim>\<open>discrete_execution_length\<close> and \<^verbatim>\<open>max_start_times\<close>. The values that are
  \<^verbatim>\<open>np.int64\<close> in the source are \<open>int\<close> here.
\<close>

definition discretize ::
  "TransactionScheduleTask \<Rightarrow> real option \<Rightarrow> int option
     \<Rightarrow> error + (real \<times> int list \<times> int \<times> int list)" where
  "discretize task time_step_length number_time_steps =
     (case (case time_step_length of
              Some t \<Rightarrow> Inr t
            | None \<Rightarrow>
                (case estimate_execution_time (num_machines task) (lengths task) of
                   Inl e \<Rightarrow> Inl e
                 | Inr r \<Rightarrow>
                     Inr (r / of_int (case number_time_steps of None \<Rightarrow> 10 | Some k \<Rightarrow> k)))) of
        Inl e \<Rightarrow> Inl e
      | Inr step \<Rightarrow>
          (let discrete_lengths = map (\<lambda>l. \<lceil>l / step\<rceil>) (lengths task) in
           case estimate_execution_time (num_machines task) (map of_int discrete_lengths) of
             Inl e \<Rightarrow> Inl e
           | Inr r \<Rightarrow>
               (let discrete_execution_length = \<lceil>r\<rceil> in
                Inr (step, discrete_lengths, discrete_execution_length,
                     map (\<lambda>dl. discrete_execution_length - dl) discrete_lengths))))"

text \<open>
  The binary unknown \<^verbatim>\<open>b_var(transaction, machine, time)\<close> is the triple of its
  arguments. The sum \<^verbatim>\<open>A + B + C + D\<close> handed to \<^verbatim>\<open>compile\<close> is kept term by term:
  for \<open>A\<close> the unknowns of each squared sum \<^verbatim>\<open>a = -1 + ...\<close>, for \<open>B\<close> and \<open>C\<close> the
  products, for \<open>D\<close> the weighted unknowns.
\<close>

type_synonym binary = "int \<times> int \<times> int"

record Hamiltonian =
  A_part :: "binary list list"
  B_part :: "(binary \<times> binary) list"
  C_part :: "(binary \<times> binary) list"
  D_part :: "(binary \<times> real) list"

text \<open>A loop whose body can raise: the first body that raises ends the loop.\<close>

fun map_e :: "('a \<Rightarrow> error + 'b) \<Rightarrow> 'a list \<Rightarrow> error + 'b list" where
  "map_e f [] = Inr []"
| "map_e f (x # xs) =
     (case f x of
        Inl e \<Rightarrow> Inl e
      | Inr y \<Rightarrow> (case map_e f xs of Inl e \<Rightarrow> Inl e | Inr ys \<Rightarrow> Inr (y # ys)))"

definition concat_map_e :: "('a \<Rightarrow> error + 'b list) \<Rightarrow> 'a list \<Rightarrow> error + 'b list" where
  "concat_map_e f xs = (case map_e f xs of Inl e \<Rightarrow> Inl e | Inr yss \<Rightarrow> Inr (concat yss))"

text \<open>\<^verbatim>\<open>start_times(idx)\<close> is \<^verbatim>\<open>range(max_start_times[idx] + 1)\<close>.\<close>

definition start_times :: "int list \<Rightarrow> int \<Rightarrow> error + int list" where
  "start_times max_start_times idx =
     (case py_index max_start_times idx of Inl e \<Rightarrow> Inl e | Inr mx \<Rightarrow> Inr [0..mx])"

text \<open>
  The start times of the second transaction that are penalised against the start
  \<open>s\<close> of the first: \<^verbatim>\<open>range(q, p + 1)\<close>, with the three array reads in source order.
\<close>

definition invalid_start_times :: "int list \<Rightarrow> int list \<Rightarrow> int \<Rightarrow> int \<Rightarrow> int \<Rightarrow> error + int list"
  where
  "invalid_start_times discrete_lengths max_start_times t u s =
     (case py_index discrete_lengths (u - 1) of
        Inl e \<Rightarrow> Inl e
      | Inr dlu \<Rightarrow>
          (case py_index discrete_lengths (t - 1) of
             Inl e \<Rightarrow> Inl e
           | Inr dlt \<Rightarrow>
               (case py_index max_start_times (u - 1) of
                  Inl e \<Rightarrow> Inl e
                | Inr mu \<Rightarrow> Inr [max 0 (s - dlu + 1) .. min (s + dlt - 1) mu])))"

definition A_terms :: "int \<Rightarrow> int \<Rightarrow> int list \<Rightarrow> error + binary list list" where
  "A_terms nm n max_start_times =
     map_e (\<lambda>t_idx.
       concat_map_e (\<lambda>m_idx.
         (case start_times max_start_times (t_idx - 1) of
            Inl e \<Rightarrow> Inl e
          | Inr ss \<Rightarrow> Inr (map (\<lambda>s. (t_idx, m_idx, s)) ss))) [1..nm]) [1..n]"

definition B_terms :: "int \<Rightarrow> int \<Rightarrow> int list \<Rightarrow> int list \<Rightarrow> error + (binary \<times> binary) list"
  where
  "B_terms nm n discrete_lengths max_start_times =
     concat_map_e (\<lambda>m_idx.
       concat_map_e (\<lambda>t_idx.
         (case start_times max_start_times (t_idx - 1) of
            Inl e \<Rightarrow> Inl e
          | Inr ss \<Rightarrow>
              concat_map_e (\<lambda>s.
                concat_map_e (\<lambda>remaining_t_idx.
                  (case invalid_start_times discrete_lengths max_start_times
                          t_idx remaining_t_idx s of
                     Inl e \<Rightarrow> Inl e
                   | Inr invalid \<Rightarrow>
                       Inr (map (\<lambda>i. ((t_idx, m_idx, s), (remaining_t_idx, m_idx, i))) invalid)))
                  [t_idx + 1..n]) ss)) [1..n - 1]) [1..nm]"

text \<open>
  \<^verbatim>\<open>unique_conflicts_list\<close>: the positions of the entries equal to 1, each pair put in
  ascending order, the pairs sorted and without repetition, then made 1-based.
\<close>

definition conflicts_list :: "nat list list \<Rightarrow> (nat \<times> nat) list" where
  "conflicts_list cs =
     concat (map (\<lambda>i. map (\<lambda>j. (i, j)) (filter (\<lambda>j. cs ! i ! j = 1) [0..<length (cs ! i)]))
               [0..<length cs])"

definition unique_conflicts_list :: "nat list list \<Rightarrow> (int \<times> int) list" where
  "unique_conflicts_list cs =
     map (\<lambda>(a, b). (int a + 1, int b + 1))
       (remdups_adj (sort (map (\<lambda>(i, j). (min i j, max i j)) (conflicts_list cs))))"

definition C_terms ::
  "int \<Rightarrow> (int \<times> int) list \<Rightarrow> int list \<Rightarrow> int list \<Rightarrow> error + (binary \<times> binary) list" where
  "C_terms nm pairs discrete_lengths max_start_times =
     concat_map_e (\<lambda>(t_idx_a, t_idx_b).
       concat_map_e (\<lambda>m_idx.
         (case start_times max_start_times (t_idx_a - 1) of
            Inl e \<Rightarrow> Inl e
          | Inr ss \<Rightarrow>
              concat_map_e (\<lambda>s.
                concat_map_e (\<lambda>remaining_m_idx.
                  if m_idx = remaining_m_idx then Inr []
                  else
                    (case invalid_start_times discrete_lengths max_start_times
                            t_idx_a t_idx_b s of
                       Inl e \<Rightarrow> Inl e
                     | Inr invalid \<Rightarrow>
                         Inr (map (\<lambda>i. ((t_idx_a, m_idx, s), (t_idx_b, remaining_m_idx, i)))
                                invalid)))
                  [1..nm]) ss)) [1..nm]) pairs"

text \<open>
  The powers of step 1.4 are taken by numpy on \<^verbatim>\<open>np.int64\<close>: a negative exponent
  raises, and a result outside 64 bits wraps around.
\<close>

definition wrap64 :: "int \<Rightarrow> int" where
  "wrap64 x = (x + 2 ^ 63) mod 2 ^ 64 - 2 ^ 63"

definition int64_pow :: "int \<Rightarrow> int \<Rightarrow> error + int" where
  "int64_pow b e = (if e < 0 then Inl ValueError else Inr (wrap64 (b ^ nat e)))"

definition D_terms ::
  "int \<Rightarrow> int \<Rightarrow> int list \<Rightarrow> int \<Rightarrow> int list \<Rightarrow> error + (binary \<times> real) list" where
  "D_terms nm n discrete_lengths discrete_execution_length max_start_times =
     concat_map_e (\<lambda>t_idx.
       concat_map_e (\<lambda>m_idx.
         (case start_times max_start_times (t_idx - 1) of
            Inl e \<Rightarrow> Inl e
          | Inr ss \<Rightarrow>
              concat_map_e (\<lambda>s.
                (case int64_pow (nm + 1) discrete_execution_length of
                   Inl e \<Rightarrow> Inl e
                 | Inr w1 \<Rightarrow>
                     (case py_index discrete_lengths (t_idx - 1) of
                        Inl e \<Rightarrow> Inl e
                      | Inr dl \<Rightarrow>
                          (case int64_pow (nm + 1) (s + dl - 1) of
                             Inl e \<Rightarrow> Inl e
                           | Inr w2 \<Rightarrow> Inr [((t_idx, m_idx, s), of_int w2 / of_int w1)]))))
                ss)) [1..nm]) [1..n]"

text \<open>
  \<^verbatim>\<open>build_discrete_qubo\<close> up to the call of \<^verbatim>\<open>compile\<close>. \<^verbatim>\<open>compile\<close> and
  \<^verbatim>\<open>to_qubo\<close> belong to the library pyqubo; the model returns the expression they
  receive. When no binary unknown was ever added, \<^verbatim>\<open>A + B + C + D\<close> is a plain Python
  number, and calling \<^verbatim>\<open>compile\<close> on it raises \<^verbatim>\<open>AttributeError\<close>.
\<close>

definition has_binary :: "Hamiltonian \<Rightarrow> bool" where
  "has_binary h =
     (concat (A_part h) \<noteq> [] \<or> B_part h \<noteq> [] \<or> C_part h \<noteq> [] \<or> D_part h \<noteq> [])"

definition build_discrete_qubo ::
  "TransactionScheduleTask \<Rightarrow> real option \<Rightarrow> int option \<Rightarrow> error + Hamiltonian" where
  "build_discrete_qubo task time_step_length number_time_steps =
     (case discretize task time_step_length number_time_steps of
        Inl e \<Rightarrow> Inl e
      | Inr (step, discrete_lengths, discrete_execution_length, max_start_times) \<Rightarrow>
          (let n = int (num_transactions task); nm = num_machines task in
           case A_terms nm n max_start_times of
             Inl e \<Rightarrow> Inl e
           | Inr A \<Rightarrow>
               (case B_terms nm n discrete_lengths max_start_times of
                  Inl e \<Rightarrow> Inl e
                | Inr B \<Rightarrow>
                    (case C_terms nm (unique_conflicts_list (conflicts task))
                            discrete_lengths max_start_times of
                       Inl e \<Rightarrow> Inl e
                     | Inr C \<Rightarrow>
                         (case D_terms nm n discrete_lengths discrete_execution_length
                                 max_start_times of
                            Inl e \<Rightarrow> Inl e
                          | Inr D \<Rightarrow>
                              (let qubo = \<lparr>A_part = A, B_part = B, C_part = C, D_part = D\<rparr>
                               in if has_binary qubo then Inr qubo
                                  else Inl AttributeError))))))"

subsection \<open>Tasks and windows, as the specification words them\<close>

text \<open>
  The invariant of a task in the data model of the specification: at least one machine,
  no negative length, a square conflict matrix over the transactions. Symmetry of the
  matrix is a predicate of its own.
\<close>

definition well_formed :: "TransactionScheduleTask \<Rightarrow> bool" where
  "well_formed task =
     (1 \<le> num_machines task
      \<and> (\<forall>l \<in> set (lengths task). 0 \<le> l)
      \<and> length (conflicts task) = length (lengths task)
      \<and> (\<forall>row \<in> set (conflicts task). length row = length (lengths task)))"

definition symmetric_conflicts :: "TransactionScheduleTask \<Rightarrow> bool" where
  "symmetric_conflicts task =
     (\<forall>i \<in> set [0..<length (conflicts task)]. \<forall>j \<in> set [0..<length (conflicts task)].
        conflicts task ! i ! j = conflicts task ! j ! i)"

text \<open>A processing order names transactions of the task.\<close>

definition valid_order :: "TransactionScheduleTask \<Rightarrow> int list \<Rightarrow> bool" where
  "valid_order task order = (\<forall>t \<in> set order. 0 \<le> t \<and> t < int (length (lengths task)))"

text \<open>The half-open windows \<open>[start_time, end_time)\<close> of two timed transactions meet.\<close>

definition windows_overlap :: "TransactionSolution \<Rightarrow> TransactionSolution \<Rightarrow> bool" where
  "windows_overlap a b = (max (start_time a) (start_time b) < min (end_time a) (end_time b))"

text \<open>All timed transactions of a schedule, track by track.\<close>

definition all_transactions :: "MachineSolution list \<Rightarrow> TransactionSolution list" where
  "all_transactions ms = concat (map transactions ms)"

text \<open>
  A track on which every transaction ends before the next one starts, and no transaction
  ends before it starts; and schedules whose transaction identifiers index the task.
\<close>

definition exclusive_track :: "TransactionSolution list \<Rightarrow> bool" where
  "exclusive_track ts =
     (sorted_wrt (\<lambda>a b. end_time a \<le> start_time b) ts
      \<and> (\<forall>a \<in> set ts. start_time a \<le> end_time a))"

definition ids_in_range :: "nat \<Rightarrow> MachineSolution list \<Rightarrow> bool" where
  "ids_in_range n ms =
     (\<forall>om \<in> set ms. \<forall>t \<in> set (transactions om). 0 \<le> id_tx t \<and> id_tx t < int n)"

subsection \<open>Concrete tasks\<close>

text \<open>The scenario of the specification: two machines, lengths 3, 2 and 4, no conflict.\<close>

definition scenario_task :: TransactionScheduleTask where
  "scenario_task =
     \<lparr>id_task = 0, num_machines = 2, lengths = [3, 2, 4],
      conflicts = [[0, 0, 0], [0, 0, 0], [0, 0, 0]], solution = [0, 1, 2]\<rparr>"

text \<open>
  Three machines and five transactions; transactions 1, 3 and 4 conflict with one
  another.
\<close>

definition crossing_task :: TransactionScheduleTask where
  "crossing_task =
     \<lparr>id_task = 0, num_machines = 3, lengths = [2, 8, 3, 4, 1],
      conflicts = [[0, 0, 0, 0, 0], [0, 0, 0, 1, 1], [0, 0, 0, 0, 0],
                   [0, 1, 0, 0, 1], [0, 1, 0, 1, 0]],
      solution = [0, 1, 2, 3, 4]\<rparr>"



text \<open>One machine and three transactions without conflict, for the decoder.\<close>

definition decode_task :: TransactionScheduleTask where
  "decode_task =
     \<lparr>id_task = 0, num_machines = 1, lengths = [1, 2, 3],
      conflicts = [[0, 0, 0], [0, 0, 0], [0, 0, 0]], solution = [0, 1, 2]\<rparr>"



section \<open>Properties of the variable names\<close>









section \<open>Properties of the simulator\<close>

subsection \<open>Selecting a machine\<close>

lemma min_from_spec:
  assumes "b < i" and "i \<le> length xs" and "\<forall>j<i. xs ! b \<le> xs ! j" and "\<forall>j<b. xs ! b < xs ! j"
  shows "min_from b (xs ! b) i (drop i xs) < length xs
         \<and> (\<forall>j<length xs. xs ! min_from b (xs ! b) i (drop i xs) \<le> xs ! j)
         \<and> (\<forall>j<min_from b (xs ! b) i (drop i xs). xs ! min_from b (xs ! b) i (drop i xs) < xs ! j)"
  using assms
proof (induction "length xs - i" arbitrary: b i)
  case 0
  then have "drop i xs = []" by simp
  with 0 show ?case by simp
next
  case (Suc n)
  then have lt: "i < length xs" by simp
  then have d: "drop i xs = xs ! i # drop (Suc i) xs" by (simp add: Cons_nth_drop_Suc)
  have n: "n = length xs - Suc i" using Suc.hyps(2) by simp
  show ?case
  proof (cases "xs ! i < xs ! b")
    case True
    have 1: "\<forall>j<Suc i. xs ! i \<le> xs ! j"
      using True Suc.prems(3) by (auto simp: less_Suc_eq intro: order.trans less_imp_le)
    have 2: "\<forall>j<i. xs ! i < xs ! j"
      using True Suc.prems(3) by (auto intro: less_le_trans)
    show ?thesis
      using Suc.hyps(1) [OF n, of i, OF _ _ 1 2] lt True by (simp add: d)
  next
    case False
    have 1: "\<forall>j<Suc i. xs ! b \<le> xs ! j"
      using False Suc.prems(3) by (auto simp: less_Suc_eq)
    show ?thesis
      using Suc.hyps(1) [OF n, of b, OF _ _ 1 Suc.prems(4)] lt False Suc.prems(1) by (simp add: d)
  qed
qed

lemma min_machine_spec:
  assumes "min_machine ms = Inr m"
  shows "m < length ms"
    and "\<forall>j<length ms. processing_time (ms ! m) \<le> processing_time (ms ! j)"
    and "\<forall>j<m. processing_time (ms ! m) < processing_time (ms ! j)"
proof -
  define xs where "xs = map processing_time ms"
  from assms obtain k ks where xs: "xs = k # ks" and m: "m = min_from 0 k 1 ks"
    by (auto simp: min_machine_def xs_def split: list.splits)
  have "min_from 0 (xs ! 0) 1 (drop 1 xs) < length xs
         \<and> (\<forall>j<length xs. xs ! min_from 0 (xs ! 0) 1 (drop 1 xs) \<le> xs ! j)
         \<and> (\<forall>j<min_from 0 (xs ! 0) 1 (drop 1 xs). xs ! min_from 0 (xs ! 0) 1 (drop 1 xs) < xs ! j)"
    by (rule min_from_spec) (auto simp: xs)
  then have *: "m < length xs \<and> (\<forall>j<length xs. xs ! m \<le> xs ! j) \<and> (\<forall>j<m. xs ! m < xs ! j)"
    by (simp add: xs m)
  show m_lt: "m < length ms" using * by (simp add: xs_def)
  show "\<forall>j<length ms. processing_time (ms ! m) \<le> processing_time (ms ! j)"
    using * m_lt by (auto simp: xs_def)
  show "\<forall>j<m. processing_time (ms ! m) < processing_time (ms ! j)"
    using * m_lt by (auto simp: xs_def)
qed

lemma min_machine_total: "ms \<noteq> [] \<Longrightarrow> \<exists>m. min_machine ms = Inr m"
  by (cases ms) (auto simp: min_machine_def)

lemma py_list_index_first:
  "i < length xs \<Longrightarrow> \<forall>j<i. xs ! j \<noteq> xs ! i \<Longrightarrow> py_list_index xs (xs ! i) = Inr i"
proof (induction xs arbitrary: i)
  case Nil
  then show ?case by simp
next
  case (Cons y ys)
  show ?case
  proof (cases i)
    case 0
    then show ?thesis by simp
  next
    case (Suc i')
    have "y \<noteq> ys ! i'" using Cons.prems(2) Suc by auto
    moreover have "py_list_index ys (ys ! i') = Inr i'"
      using Cons.prems Suc by (intro Cons.IH) auto
    ultimately show ?thesis using Suc by simp
  qed
qed

lemma index_of_min_machine:
  assumes "min_machine ms = Inr m"
  shows "py_list_index ms (ms ! m) = Inr m"
proof (rule py_list_index_first)
  show "m < length ms" using assms by (rule min_machine_spec)
  show "\<forall>j<m. ms ! j \<noteq> ms ! m"
    using min_machine_spec(3) [OF assms] by fastforce
qed

subsection \<open>The scan of the other machines is a fold\<close>

lemma py_index_nat: "0 \<le> i \<Longrightarrow> i < int (length xs) \<Longrightarrow> py_index xs i = Inr (xs ! nat i)"
  by (simp add: py_index_def)

lemma conflict_at_in_range:
  assumes "length cs = n" and "\<forall>row \<in> set cs. length row = n"
    and "0 \<le> i" and "i < int n" and "0 \<le> j" and "j < int n"
  shows "conflict_at cs i j = Inr (cs ! nat i ! nat j)"
proof -
  have "cs ! nat i \<in> set cs" using assms by simp
  then have "length (cs ! nat i) = n" using assms(2) by blast
  then show ?thesis using assms by (simp add: conflict_at_def py_index_nat)
qed

lemma scan_transactions_fold:
  assumes "length cs = n" and "\<forall>row \<in> set cs. length row = n"
    and "0 \<le> tid" and "tid < int n"
    and "\<forall>t \<in> set omts. 0 \<le> id_tx t \<and> id_tx t < int n"
  shows "scan_transactions cs tid d omts ep =
           Inr (foldl (\<lambda>ep omt.
                  if cs ! nat (id_tx omt) ! nat tid > 0 \<and> start_time omt \<le> ep + d
                     \<and> end_time omt \<ge> ep
                  then max (end_time omt) ep else ep) ep omts)"
  using assms(5)
proof (induction omts arbitrary: ep)
  case Nil
  then show ?case by simp
next
  case (Cons omt omts)
  have "conflict_at cs (id_tx omt) tid = Inr (cs ! nat (id_tx omt) ! nat tid)"
    using conflict_at_in_range [OF assms(1,2) _ _ assms(3,4)] Cons.prems by simp
  then show ?case using Cons by simp
qed

lemma scan_machines_fold:
  assumes "length cs = n" and "\<forall>row \<in> set cs. length row = n"
    and "0 \<le> tid" and "tid < int n"
    and "\<forall>om \<in> set oms. \<forall>t \<in> set (transactions om). 0 \<le> id_tx t \<and> id_tx t < int n"
  shows "scan_machines cs tid d m i oms ep =
           Inr (foldl (\<lambda>ep omt.
                  if cs ! nat (id_tx omt) ! nat tid > 0 \<and> start_time omt \<le> ep + d
                     \<and> end_time omt \<ge> ep
                  then max (end_time omt) ep else ep) ep
                 (all_transactions (if m < i then oms else take (m - i) oms @ drop (Suc (m - i)) oms)))"
  using assms(5)
proof (induction oms arbitrary: i ep)
  case Nil
  then show ?case by (simp add: all_transactions_def)
next
  case (Cons om oms)
  show ?case
  proof (cases "i = m")
    case True
    then show ?thesis using Cons by (simp add: all_transactions_def)
  next
    case False
    have st: "scan_transactions cs tid d (transactions om) ep =
           Inr (foldl (\<lambda>ep omt.
                  if cs ! nat (id_tx omt) ! nat tid > 0 \<and> start_time omt \<le> ep + d
                     \<and> end_time omt \<ge> ep
                  then max (end_time omt) ep else ep) ep (transactions om))"
      using Cons.prems by (intro scan_transactions_fold [OF assms(1-4)]) simp
    show ?thesis
    proof (cases "m < i")
      case True
      then show ?thesis using False st Cons by (simp add: all_transactions_def)
    next
      case F2: False
      then have "m - i = Suc (m - Suc i)" using False by simp
      then show ?thesis using False F2 st Cons by (simp add: all_transactions_def)
    qed
  qed
qed


lemma push_fold_mono:
  "ep \<le> foldl (\<lambda>ep omt. if P ep omt then max (end_time omt) ep else ep) ep omts"
proof (induction omts arbitrary: ep)
  case Nil
  then show ?case by simp
next
  case (Cons omt omts)
  have "ep \<le> (if P ep omt then max (end_time omt) ep else ep)" by simp
  also have "\<dots> \<le> foldl (\<lambda>ep omt. if P ep omt then max (end_time omt) ep else ep)
                      (if P ep omt then max (end_time omt) ep else ep) omts"
    by (rule Cons.IH)
  finally show ?case by simp
qed

lemma build_transaction_solution_fold:
  assumes "m < length ms"
    and "length cs = n" and "\<forall>row \<in> set cs. length row = n"
    and "0 \<le> tid" and "tid < int n"
    and "\<forall>om \<in> set ms. \<forall>t \<in> set (transactions om). 0 \<le> id_tx t \<and> id_tx t < int n"
  shows "build_transaction_solution m ms tid d cs =
     Inr (ms[m := (ms ! m)\<lparr>transactions := transactions (ms ! m) @
        [\<lparr>id_tx = tid,
          start_time =
            foldl (\<lambda>ep omt.
                  if cs ! nat (id_tx omt) ! nat tid > 0 \<and> start_time omt \<le> ep + d
                     \<and> end_time omt \<ge> ep
                  then max (end_time omt) ep else ep)
              (processing_time (ms ! m)) (all_transactions (take m ms @ drop (Suc m) ms)),
          end_time =
            foldl (\<lambda>ep omt.
                  if cs ! nat (id_tx omt) ! nat tid > 0 \<and> start_time omt \<le> ep + d
                     \<and> end_time omt \<ge> ep
                  then max (end_time omt) ep else ep)
              (processing_time (ms ! m)) (all_transactions (take m ms @ drop (Suc m) ms)) + d,
          duration = d\<rparr>]\<rparr>])"
  unfolding build_transaction_solution_def Let_def
  using scan_machines_fold [OF assms(2-6), of d m 0]
  by (simp add: processing_time_def)


subsection \<open>Exclusive tracks\<close>

lemma exclusive_track_last:
  assumes "exclusive_track ts" and "a \<in> set ts"
  shows "end_time a \<le> end_time (last ts)"
proof -
  from assms(2) have ne: "ts \<noteq> []" by auto
  then have split: "ts = butlast ts @ [last ts]" by simp
  show ?thesis
  proof (cases "a = last ts")
    case True
    then show ?thesis by simp
  next
    case False
    then have "a \<in> set (butlast ts)" using assms(2) split
      by (metis Un_iff empty_iff empty_set set_ConsD set_append)
    moreover have "sorted_wrt (\<lambda>a b. end_time a \<le> start_time b) (butlast ts @ [last ts])"
      using assms(1) split by (simp add: exclusive_track_def)
    ultimately have "end_time a \<le> start_time (last ts)"
      by (simp add: sorted_wrt_append)
    moreover have "start_time (last ts) \<le> end_time (last ts)"
      using assms(1) ne by (simp add: exclusive_track_def)
    ultimately show ?thesis by simp
  qed
qed

lemma exclusive_track_append:
  assumes "exclusive_track (transactions om)" and "processing_time om \<le> s" and "s \<le> e"
  shows "exclusive_track
           (transactions om @ [\<lparr>id_tx = i, start_time = s, end_time = e, duration = d\<rparr>])"
proof -
  have "\<forall>a \<in> set (transactions om). end_time a \<le> s"
  proof
    fix a assume a: "a \<in> set (transactions om)"
    then have "transactions om \<noteq> []" by auto
    then have "processing_time om = end_time (last (transactions om))"
      by (simp add: processing_time_def)
    then show "end_time a \<le> s"
      using exclusive_track_last [OF assms(1) a] assms(2) by simp
  qed
  then show ?thesis
    using assms(1,3) by (simp add: exclusive_track_def sorted_wrt_append)
qed

lemma build_transaction_solution_invariant:
  assumes "m < length ms"
    and "length cs = n" and "\<forall>row \<in> set cs. length row = n"
    and "0 \<le> tid" and "tid < int n" and "0 \<le> d"
    and "ids_in_range n ms"
    and "\<forall>om \<in> set ms. exclusive_track (transactions om)"
  shows "\<exists>ms'. build_transaction_solution m ms tid d cs = Inr ms'
           \<and> length ms' = length ms \<and> ids_in_range n ms'
           \<and> (\<forall>om \<in> set ms'. exclusive_track (transactions om))"
proof -
  define ep where "ep =
     foldl (\<lambda>ep omt.
                  if cs ! nat (id_tx omt) ! nat tid > 0 \<and> start_time omt \<le> ep + d
                     \<and> end_time omt \<ge> ep
                  then max (end_time omt) ep else ep)
              (processing_time (ms ! m)) (all_transactions (take m ms @ drop (Suc m) ms))"
  define new where "new = \<lparr>id_tx = tid, start_time = ep, end_time = ep + d, duration = d\<rparr>"
  define ms' where "ms' = ms[m := (ms ! m)\<lparr>transactions := transactions (ms ! m) @ [new]\<rparr>]"
  have b: "build_transaction_solution m ms tid d cs = Inr ms'"
    using build_transaction_solution_fold [OF assms(1-5), of d] assms(7)
    by (simp add: ids_in_range_def ms'_def new_def ep_def)
  have le: "processing_time (ms ! m) \<le> ep"
    unfolding ep_def by (rule push_fold_mono)
  have mem: "ms ! m \<in> set ms" using assms(1) by simp
  have new_track: "exclusive_track (transactions (ms ! m) @ [new])"
    unfolding new_def
    using mem assms(8) le assms(6) by (intro exclusive_track_append) auto
  have sub: "set ms' \<subseteq> insert ((ms ! m)\<lparr>transactions := transactions (ms ! m) @ [new]\<rparr>) (set ms)"
    unfolding ms'_def by (rule set_update_subset_insert)
  have ids: "ids_in_range n ms'"
    unfolding ids_in_range_def
  proof (intro ballI)
    fix om t assume om: "om \<in> set ms'" and t: "t \<in> set (transactions om)"
    show "0 \<le> id_tx t \<and> id_tx t < int n"
    proof (cases "om \<in> set ms")
      case True
      then show ?thesis using assms(7) t by (auto simp: ids_in_range_def)
    next
      case False
      then have "om = (ms ! m)\<lparr>transactions := transactions (ms ! m) @ [new]\<rparr>"
        using om sub by auto
      then have "t \<in> set (transactions (ms ! m)) \<or> t = new" using t by auto
      then show ?thesis
        using assms(4,5,7) mem by (auto simp: ids_in_range_def new_def)
    qed
  qed
  have tracks: "\<forall>om \<in> set ms'. exclusive_track (transactions om)"
  proof
    fix om assume om: "om \<in> set ms'"
    show "exclusive_track (transactions om)"
    proof (cases "om \<in> set ms")
      case True
      then show ?thesis using assms(8) by simp
    next
      case False
      then have "om = (ms ! m)\<lparr>transactions := transactions (ms ! m) @ [new]\<rparr>"
        using om sub by auto
      then show ?thesis using new_track by simp
    qed
  qed
  show ?thesis using b ids tracks by (simp add: ms'_def)
qed

lemma place_all_invariant:
  assumes "length (conflicts task) = length (lengths task)"
    and "\<forall>row \<in> set (conflicts task). length row = length (lengths task)"
    and "\<forall>l \<in> set (lengths task). 0 \<le> l"
    and "valid_order task order"
    and "ms \<noteq> []"
    and "ids_in_range (length (lengths task)) ms"
    and "\<forall>om \<in> set ms. exclusive_track (transactions om)"
  shows "\<exists>ms'. place_all task order ms = Inr ms'
           \<and> length ms' = length ms
           \<and> (\<forall>om \<in> set ms'. exclusive_track (transactions om))"
  using assms(4-7)
proof (induction order arbitrary: ms)
  case Nil
  then show ?case by simp
next
  case (Cons tid order)
  from Cons.prems(2) obtain m where m: "min_machine ms = Inr m"
    using min_machine_total by blast
  then have m_lt: "m < length ms" by (rule min_machine_spec)
  have tid: "0 \<le> tid" "tid < int (length (lengths task))"
    using Cons.prems(1) by (auto simp: valid_order_def)
  then have d: "py_index (lengths task) tid = Inr (lengths task ! nat tid)"
    by (simp add: py_index_nat)
  have "lengths task ! nat tid \<in> set (lengths task)" using tid by simp
  then have d0: "0 \<le> lengths task ! nat tid" using assms(3) by blast
  obtain ms' where b: "build_transaction_solution m ms tid (lengths task ! nat tid) (conflicts task) = Inr ms'"
    and len: "length ms' = length ms"
    and ids: "ids_in_range (length (lengths task)) ms'"
    and tracks: "\<forall>om \<in> set ms'. exclusive_track (transactions om)"
    using build_transaction_solution_invariant
            [OF m_lt assms(1,2) tid d0 Cons.prems(3,4)] by blast
  have ne: "ms' \<noteq> []" using len Cons.prems(2) by auto
  have vo: "valid_order task order" using Cons.prems(1) by (simp add: valid_order_def)
  from Cons.IH [OF vo ne ids tracks] len m d b show ?case by simp
qed

lemma no_overlap_after: "end_time a \<le> start_time b \<Longrightarrow> \<not> windows_overlap a b"
  by (auto simp: windows_overlap_def)

lemma place_all_from_empty:
  assumes "well_formed task" and "valid_order task order"
  shows "\<exists>ms'. place_all task order (empty_machines (num_machines task)) = Inr ms'
           \<and> (\<forall>om \<in> set ms'. exclusive_track (transactions om))"
proof -
  have ne: "empty_machines (num_machines task) \<noteq> []"
    using assms(1) by (auto simp: well_formed_def empty_machines_def)
  have ids: "ids_in_range (length (lengths task)) (empty_machines (num_machines task))"
    by (simp add: ids_in_range_def empty_machines_def)
  have tracks: "\<forall>om \<in> set (empty_machines (num_machines task)). exclusive_track (transactions om)"
    by (simp add: empty_machines_def exclusive_track_def)
  show ?thesis
    using place_all_invariant [OF _ _ _ assms(2) ne ids tracks] assms(1)
    by (auto simp: well_formed_def)
qed

text \<open>
  C6. For a well-formed task and an order over its transactions the simulator returns a
  schedule, and on every track of it each transaction ends no later than every later one
  starts: the next transaction of a track starts at or after the end of the previous
  one, and no two windows of a track overlap.
\<close>

theorem exclusivity:
  assumes "well_formed task" and "valid_order task order"
  shows "\<exists>sol. solution_order_to_solution task order = Inr sol
           \<and> (\<forall>om \<in> set (machines sol).
                 sorted_wrt (\<lambda>a b. end_time a \<le> start_time b \<and> \<not> windows_overlap a b)
                   (transactions om))"
proof -
  obtain ms' where p: "place_all task order (empty_machines (num_machines task)) = Inr ms'"
    and ex: "\<forall>om \<in> set ms'. exclusive_track (transactions om)"
    using place_all_from_empty [OF assms] by blast
  have "\<forall>om \<in> set ms'.
          sorted_wrt (\<lambda>a b. end_time a \<le> start_time b \<and> \<not> windows_overlap a b) (transactions om)"
  proof
    fix om assume "om \<in> set ms'"
    then have "sorted_wrt (\<lambda>a b. end_time a \<le> start_time b) (transactions om)"
      using ex by (simp add: exclusive_track_def)
    then show "sorted_wrt (\<lambda>a b. end_time a \<le> start_time b \<and> \<not> windows_overlap a b) (transactions om)"
      by (rule sorted_wrt_mono_rel [rotated]) (simp add: no_overlap_after)
  qed
  then show ?thesis using p by (simp add: solution_order_to_solution_def new_solution_def)
qed

lemma scenario_task_well_formed: "well_formed scenario_task"
  by (simp add: well_formed_def scenario_task_def)

lemma scenario_order_valid: "valid_order scenario_task [0, 1, 2]"
  by (simp add: valid_order_def scenario_task_def)

theorem exclusivity_witness:
  "well_formed scenario_task \<and> valid_order scenario_task [0, 1, 2]
   \<and> (\<exists>sol. solution_order_to_solution scenario_task [0, 1, 2] = Inr sol
         \<and> (\<forall>om \<in> set (machines sol).
               sorted_wrt (\<lambda>a b. end_time a \<le> start_time b \<and> \<not> windows_overlap a b)
                 (transactions om)))"
  using exclusivity [OF scenario_task_well_formed scenario_order_valid]
    scenario_task_well_formed scenario_order_valid
  by blast

subsection \<open>Replaying a schedule\<close>

lemma build_transaction_solution_shape:
  assumes "build_transaction_solution m ms tid d cs = Inr ms'"
  shows "\<exists>new. ms' = ms[m := (ms ! m)\<lparr>transactions := transactions (ms ! m) @ [new]\<rparr>]
           \<and> id_tx new = tid"
  using assms
  by (auto simp: build_transaction_solution_def Let_def split: sum.splits)

lemma place_all_Cons:
  assumes "place_all task (tid # order) ms = Inr F"
  obtains m d ms' where "min_machine ms = Inr m"
    and "build_transaction_solution m ms tid d (conflicts task) = Inr ms'"
    and "place_all task order ms' = Inr F"
  using assms by (auto split: sum.splits)

lemma place_all_extends:
  assumes "place_all task order ms = Inr F"
  shows "length F = length ms
         \<and> (\<forall>j<length ms. \<exists>ys. transactions (F ! j) = transactions (ms ! j) @ ys)
         \<and> sum_list (map (\<lambda>m. length (transactions m)) F)
             = sum_list (map (\<lambda>m. length (transactions m)) ms) + length order"
  using assms
proof (induction order arbitrary: ms)
  case Nil
  then show ?case by simp
next
  case (Cons tid order)
  from Cons.prems obtain m d ms' where m: "min_machine ms = Inr m"
    and b: "build_transaction_solution m ms tid d (conflicts task) = Inr ms'"
    and p: "place_all task order ms' = Inr F"
    by (rule place_all_Cons)
  have m_lt: "m < length ms" using m by (rule min_machine_spec)
  from build_transaction_solution_shape [OF b] obtain new
    where ms': "ms' = ms[m := (ms ! m)\<lparr>transactions := transactions (ms ! m) @ [new]\<rparr>]"
    by blast
  have len: "length ms' = length ms" by (simp add: ms')
  note ih = Cons.IH [OF p]
  have 1: "length F = length ms" using ih len by simp
  have 2: "\<forall>j<length ms. \<exists>ys. transactions (F ! j) = transactions (ms ! j) @ ys"
  proof (intro allI impI)
    fix j assume j: "j < length ms"
    then obtain ys where ys: "transactions (F ! j) = transactions (ms' ! j) @ ys"
      using ih len by auto
    show "\<exists>ys. transactions (F ! j) = transactions (ms ! j) @ ys"
    proof (cases "j = m")
      case True
      then show ?thesis using ys j by (simp add: ms')
    next
      case False
      then show ?thesis using ys j by (simp add: ms')
    qed
  qed
  have "map (\<lambda>m. length (transactions m)) ms'
          = (map (\<lambda>m. length (transactions m)) ms)[m := Suc (length (transactions (ms ! m)))]"
    by (simp add: ms' map_update)
  then have "sum_list (map (\<lambda>m. length (transactions m)) ms')
          = sum_list (map (\<lambda>m. length (transactions m)) ms) + 1"
    using m_lt by (simp add: sum_list_update)
  then have 3: "sum_list (map (\<lambda>m. length (transactions m)) F)
             = sum_list (map (\<lambda>m. length (transactions m)) ms) + length (tid # order)"
    using ih by simp
  show ?case using 1 2 3 by blast
qed

lemma replay_place_all:
  assumes "place_all task order ms = Inr F"
    and "\<forall>j<length ms. tracker j = Some (length (transactions (ms ! j)))"
  shows "replay (length order) F ms tracker acc = Inr (acc @ order)"
  using assms
proof (induction order arbitrary: ms tracker acc)
  case Nil
  then show ?case by simp
next
  case (Cons tid order)
  from Cons.prems(1) obtain m d ms' where m: "min_machine ms = Inr m"
    and b: "build_transaction_solution m ms tid d (conflicts task) = Inr ms'"
    and p: "place_all task order ms' = Inr F"
    by (rule place_all_Cons)
  have m_lt: "m < length ms" using m by (rule min_machine_spec)
  have idx: "py_list_index ms (ms ! m) = Inr m" using m by (rule index_of_min_machine)
  from build_transaction_solution_shape [OF b] obtain new
    where ms': "ms' = ms[m := (ms ! m)\<lparr>transactions := transactions (ms ! m) @ [new]\<rparr>]"
      and new: "id_tx new = tid"
    by blast
  have len: "length ms' = length ms" by (simp add: ms')
  from place_all_extends [OF p] have lenF: "length F = length ms"
    and ext: "\<forall>j<length ms'. \<exists>ys. transactions (F ! j) = transactions (ms' ! j) @ ys"
    using len by auto
  from ext m_lt len obtain ys
    where "transactions (F ! m) = transactions (ms' ! m) @ ys" by auto
  then have Fm: "transactions (F ! m) = transactions (ms ! m) @ new # ys"
    using m_lt by (simp add: ms')
  have tr: "tracker m = Some (length (transactions (ms ! m)))"
    using Cons.prems(2) m_lt by simp
  have om: "py_index F (int m) = Inr (F ! m)"
    using m_lt lenF by (simp add: py_index_nat)
  have tx: "py_index (transactions (F ! m)) (int (length (transactions (ms ! m)))) = Inr new"
    by (simp add: py_index_nat Fm nth_append)
  have tracker': "\<forall>j<length ms'.
      (tracker(m \<mapsto> length (transactions (ms ! m)) + 1)) j = Some (length (transactions (ms' ! j)))"
    using Cons.prems(2) by (auto simp: ms')
  have "replay (length (tid # order)) F ms tracker acc
          = replay (length order) F ms' (tracker(m \<mapsto> length (transactions (ms ! m)) + 1))
              (acc @ [tid])"
    using m idx tr om tx by (simp add: ms' new)
  also have "\<dots> = Inr ((acc @ [tid]) @ order)"
    by (rule Cons.IH [OF p tracker'])
  finally show ?case by simp
qed

lemma replay_solution_order:
  assumes "solution_order_to_solution task order = Inr sol"
  shows "solution_to_solution_order sol = Inr order"
proof -
  from assms obtain F where p: "place_all task order (empty_machines (num_machines task)) = Inr F"
    and sol: "sol = new_solution F"
    by (auto simp: solution_order_to_solution_def split: sum.splits)
  from place_all_extends [OF p]
  have len: "length F = nat (num_machines task)"
    and total: "sum_list (map (\<lambda>m. length (transactions m)) F) = length order"
    by (simp_all add: empty_machines_def)
  have em: "empty_machines (int (length F)) = empty_machines (num_machines task)"
    using len by (simp add: empty_machines_def)
  have "replay (length order) F (empty_machines (num_machines task))
          (\<lambda>m. if m < length F then Some 0 else None) [] = Inr ([] @ order)"
    by (rule replay_place_all [OF p]) (simp add: empty_machines_def len)
  then show ?thesis
    by (simp add: solution_to_solution_order_def sol new_solution_def total em)
qed

text \<open>
  C4. Whenever the simulator returns a schedule for an order, replaying the schedule
  gives the order back; and for a well-formed task and an order over its transactions the
  simulator does return a schedule. Neither distinct durations nor the absence of ties is
  needed: the replay selects by the same rule as the construction, on the same
  processing times.
\<close>

theorem round_trip:
  "(\<forall>sol. solution_order_to_solution task order = Inr sol
        \<longrightarrow> solution_to_solution_order sol = Inr order)
   \<and> (well_formed task \<and> valid_order task order
        \<longrightarrow> (\<exists>sol. solution_order_to_solution task order = Inr sol))"
proof (intro conjI allI impI)
  fix sol assume "solution_order_to_solution task order = Inr sol"
  then show "solution_to_solution_order sol = Inr order" by (rule replay_solution_order)
next
  assume "well_formed task \<and> valid_order task order"
  then obtain ms' where "place_all task order (empty_machines (num_machines task)) = Inr ms'"
    using place_all_from_empty by blast
  then show "\<exists>sol. solution_order_to_solution task order = Inr sol"
    by (simp add: solution_order_to_solution_def)
qed

text \<open>The scenario of the specification: transaction 2 joins transaction 1 on track 1.\<close>

theorem round_trip_witness:
  "well_formed scenario_task \<and> valid_order scenario_task [0, 1, 2]
   \<and> solution_order_to_solution scenario_task [0, 1, 2] =
     Inr (new_solution
       [\<lparr>transactions = [\<lparr>id_tx = 0, start_time = 0, end_time = 3, duration = 3\<rparr>]\<rparr>,
        \<lparr>transactions =
           [\<lparr>id_tx = 1, start_time = 0, end_time = 2, duration = 2\<rparr>,
            \<lparr>id_tx = 2, start_time = 2, end_time = 6, duration = 4\<rparr>]\<rparr>])
   \<and> solution_to_solution_order (new_solution
       [\<lparr>transactions = [\<lparr>id_tx = 0, start_time = 0, end_time = 3, duration = 3\<rparr>]\<rparr>,
        \<lparr>transactions =
           [\<lparr>id_tx = 1, start_time = 0, end_time = 2, duration = 2\<rparr>,
            \<lparr>id_tx = 2, start_time = 2, end_time = 6, duration = 4\<rparr>]\<rparr>]) = Inr [0, 1, 2]"
proof -
  have e: "solution_order_to_solution scenario_task [0, 1, 2] =
     Inr (new_solution
       [\<lparr>transactions = [\<lparr>id_tx = 0, start_time = 0, end_time = 3, duration = 3\<rparr>]\<rparr>,
        \<lparr>transactions =
           [\<lparr>id_tx = 1, start_time = 0, end_time = 2, duration = 2\<rparr>,
            \<lparr>id_tx = 2, start_time = 2, end_time = 6, duration = 4\<rparr>]\<rparr>])"
    by code_simp
  show ?thesis
    using round_trip [of scenario_task "[0, 1, 2]"] e
      scenario_task_well_formed scenario_order_valid by blast
qed


section \<open>Conflicts between tracks\<close>




text \<open>
  C1. The source scans the other tracks once, in list order. A push caused by a later
  track can move the window onto a conflicting transaction of an earlier track that was
  already passed. In \<open>crossing_task\<close> transaction 4 is pushed from 3 to 8 by
  transaction 1 on track 1, after transaction 3 on track 0 (from 8 to 12) was scanned: the
  conflicting transactions 3 and 4 both run from 8 to 9.
\<close>

theorem conflict_invariant_violated:
  "solution_order_to_solution crossing_task [0, 1, 2, 3, 4] =
     Inr (new_solution
       [\<lparr>transactions =
           [\<lparr>id_tx = 0, start_time = 0, end_time = 2, duration = 2\<rparr>,
            \<lparr>id_tx = 3, start_time = 8, end_time = 12, duration = 4\<rparr>]\<rparr>,
        \<lparr>transactions = [\<lparr>id_tx = 1, start_time = 0, end_time = 8, duration = 8\<rparr>]\<rparr>,
        \<lparr>transactions =
           [\<lparr>id_tx = 2, start_time = 0, end_time = 3, duration = 3\<rparr>,
            \<lparr>id_tx = 4, start_time = 8, end_time = 9, duration = 1\<rparr>]\<rparr>])
   \<and> conflict_at (conflicts crossing_task) 3 4 = Inr 1
   \<and> windows_overlap \<lparr>id_tx = 3, start_time = 8, end_time = 12, duration = 4\<rparr>
        \<lparr>id_tx = 4, start_time = 8, end_time = 9, duration = 1\<rparr>"
  by code_simp

lemma crossing_task_well_formed:
  "well_formed crossing_task \<and> symmetric_conflicts crossing_task
   \<and> valid_order crossing_task [0, 1, 2, 3, 4]"
  by code_simp


section \<open>Properties of the decoder\<close>

text \<open>
  C2. The source builds the sorted groups and drops them, and \<^verbatim>\<open>pop()\<close> takes the last
  element of the unsorted list. For the names \<^verbatim>\<open>1-1-0\<close>, \<^verbatim>\<open>3-1-3\<close> and
  \<^verbatim>\<open>2-1-1\<close> the group of machine 0 is not sorted by start time when the loop begins,
  and the first pop yields start time 1 although start time 0 remains: the transactions
  are placed in the order 1, 2, 0.
\<close>

theorem decode_pops_last_inserted:
  "parse_all [''1-1-0'', ''3-1-3'', ''2-1-1''] =
     Inr [\<lparr>transaction_id = 0, machine_id = 0, start_time_var = 0\<rparr>,
          \<lparr>transaction_id = 2, machine_id = 0, start_time_var = 3\<rparr>,
          \<lparr>transaction_id = 1, machine_id = 0, start_time_var = 1\<rparr>]
   \<and> machine_var_map
        [\<lparr>transaction_id = 0, machine_id = 0, start_time_var = 0\<rparr>,
         \<lparr>transaction_id = 2, machine_id = 0, start_time_var = 3\<rparr>,
         \<lparr>transaction_id = 1, machine_id = 0, start_time_var = 1\<rparr>] 0 =
       [\<lparr>transaction_id = 0, machine_id = 0, start_time_var = 0\<rparr>,
        \<lparr>transaction_id = 2, machine_id = 0, start_time_var = 3\<rparr>,
        \<lparr>transaction_id = 1, machine_id = 0, start_time_var = 1\<rparr>]
   \<and> \<not> sorted (map start_time_var
          [\<lparr>transaction_id = 0, machine_id = 0, start_time_var = 0\<rparr>,
           \<lparr>transaction_id = 2, machine_id = 0, start_time_var = 3\<rparr>,
           \<lparr>transaction_id = 1, machine_id = 0, start_time_var = 1\<rparr>])
   \<and> py_pop
        [\<lparr>transaction_id = 0, machine_id = 0, start_time_var = 0\<rparr>,
         \<lparr>transaction_id = 2, machine_id = 0, start_time_var = 3\<rparr>,
         \<lparr>transaction_id = 1, machine_id = 0, start_time_var = 1\<rparr>] =
       Inr (\<lparr>transaction_id = 1, machine_id = 0, start_time_var = 1\<rparr>,
            [\<lparr>transaction_id = 0, machine_id = 0, start_time_var = 0\<rparr>,
             \<lparr>transaction_id = 2, machine_id = 0, start_time_var = 3\<rparr>])
   \<and> binary_variables_to_solution [''1-1-0'', ''3-1-3'', ''2-1-1''] decode_task =
       Inr (new_solution
         [\<lparr>transactions =
             [\<lparr>id_tx = 1, start_time = 0, end_time = 2, duration = 2\<rparr>,
              \<lparr>id_tx = 2, start_time = 2, end_time = 5, duration = 3\<rparr>,
              \<lparr>id_tx = 0, start_time = 5, end_time = 6, duration = 1\<rparr>]\<rparr>])"
  by code_simp

section \<open>The makespan\<close>

lemma concat_end_times:
  "concat (map (\<lambda>m. map end_time (transactions m)) ms) = map end_time (all_transactions ms)"
  by (simp add: all_transactions_def map_concat comp_def)

lemma fold_max_Max: "fold max ls (l :: real) = Max (set (l # ls))"
  by (rule Max.set_eq_fold [symmetric])

text \<open>
  C10. The first read of \<^verbatim>\<open>length\<close> on a schedule: with at least one timed transaction
  it returns (and caches) the largest end time of all tracks; with none at all it raises.
\<close>

theorem length_sol_first_read:
  assumes "length_cache s = None"
  shows "length_sol s =
           (if all_transactions (machines s) = [] then Inl ValueError
            else Inr (Max (end_time ` set (all_transactions (machines s))),
                      s\<lparr>length_cache :=
                          Some (Max (end_time ` set (all_transactions (machines s))))\<rparr>))"
proof (cases "all_transactions (machines s)")
  case Nil
  then show ?thesis using assms by (simp add: length_sol_def concat_end_times)
next
  case (Cons t ts)
  then have "set (end_time t # map end_time ts) = end_time ` set (all_transactions (machines s))"
    by simp
  then have "fold max (map end_time ts) (end_time t)
               = Max (end_time ` set (all_transactions (machines s)))"
    using fold_max_Max [of "map end_time ts" "end_time t"] by simp
  then show ?thesis using assms Cons by (simp add: length_sol_def concat_end_times Let_def)
qed

theorem length_sol_first_read_witness:
  "length_sol (new_solution
       [\<lparr>transactions = [\<lparr>id_tx = 0, start_time = 0, end_time = 3, duration = 3\<rparr>]\<rparr>,
        \<lparr>transactions =
           [\<lparr>id_tx = 1, start_time = 0, end_time = 2, duration = 2\<rparr>,
            \<lparr>id_tx = 2, start_time = 2, end_time = 6, duration = 4\<rparr>]\<rparr>]) =
     Inr (6, \<lparr>machines =
       [\<lparr>transactions = [\<lparr>id_tx = 0, start_time = 0, end_time = 3, duration = 3\<rparr>]\<rparr>,
        \<lparr>transactions =
           [\<lparr>id_tx = 1, start_time = 0, end_time = 2, duration = 2\<rparr>,
            \<lparr>id_tx = 2, start_time = 2, end_time = 6, duration = 4\<rparr>]\<rparr>], length_cache = Some 6\<rparr>)
   \<and> length_sol (new_solution [\<lparr>transactions = []\<rparr>, \<lparr>transactions = []\<rparr>]) = Inl ValueError"
proof -
  have 1: "length_cache (new_solution ms) = None" for ms by (simp add: new_solution_def)
  show ?thesis
    using length_sol_first_read [OF 1, of "[\<lparr>transactions = []\<rparr>, \<lparr>transactions = []\<rparr>]"]
      length_sol_first_read [OF 1, of "[\<lparr>transactions = [\<lparr>id_tx = 0, start_time = 0, end_time = 3, duration = 3\<rparr>]\<rparr>,
        \<lparr>transactions =
           [\<lparr>id_tx = 1, start_time = 0, end_time = 2, duration = 2\<rparr>,
            \<lparr>id_tx = 2, start_time = 2, end_time = 6, duration = 4\<rparr>]\<rparr>]"]
    by (simp add: new_solution_def all_transactions_def)
qed


section \<open>Properties of the encoder\<close>



subsection \<open>Malformed tasks\<close>
















text \<open>The error of the second case, on the task of that example.\<close>

lemma zero_length_raises_value_error:
  "build_discrete_qubo (scenario_task\<lparr>lengths := [3, 0, 4]\<rparr>) (Some 1) None = Inl ValueError"
  by code_simp

end
